theory Spec2Isabelle
  imports Main "HOL-Library.AList"
begin

section \<open>Incremental replication from Postgres to Snowflake\<close>

text \<open>
  The DAG of \<^verbatim>\<open>src/airflow/postgres_to_snowflake.py\<close> runs, for each configured table,
  \<^verbatim>\<open>get_max_primary_key\<close> and then \<^verbatim>\<open>load_incremental_data\<close>. Both talk to a database
  through a cursor. The two databases are the state of the program: they are modelled as
  explicit values, every statement the code executes is a function on them, and an
  exception raised by a statement is an \<open>Inl\<close> result that stops the task.
\<close>

subsection \<open>The stores\<close>

text \<open>
  A cell is an integer or SQL NULL (\<open>None\<close>): the primary key is an integer
  (\<^verbatim>\<open>max_id: int\<close>) and the program never inspects any other cell. A row is the tuple of
  its cells. A table has named columns, in order, the columns declared NOT NULL, and its
  rows in the order the store returns them. A store holds its tables and its materialized
  views, each list keyed by schema and name, and the search path that resolves an
  unqualified name. A materialized view is read like a table, cannot be inserted into, and
  is not shown by \<^verbatim>\<open>information_schema.columns\<close>. Names are compared by equality: the
  folding of unquoted names to one case is not modelled.
\<close>

type_synonym ident = string
type_synonym cell = "int option"
type_synonym row = "cell list"

record table =
  columns :: "ident list"
  not_null :: "ident list"
  rows :: "row list"

record store =
  relations :: "((ident \<times> ident) \<times> table) list"
  materialized_views :: "((ident \<times> ident) \<times> table) list"
  search_path :: "ident list"

record world =
  postgres :: store
  snowflake :: store

datatype error =
    UndefinedTable ident
  | UndefinedColumn ident
  | DuplicateColumn
  | SyntaxError
  | BindError
  | NotNullViolation ident
  | NotATable ident

text \<open>An unqualified name is the table or materialized view of the first schema of the
  search path that has one.\<close>

fun resolve_in :: "((ident \<times> ident) \<times> table) list \<Rightarrow> ident list \<Rightarrow> ident \<Rightarrow> (ident \<times> table) option" where
  "resolve_in rels [] t = None"
| "resolve_in rels (s # ss) t =
     (case map_of rels (s, t) of
        Some tb \<Rightarrow> Some (s, tb)
      | None \<Rightarrow> resolve_in rels ss t)"

definition resolve :: "store \<Rightarrow> ident \<Rightarrow> (ident \<times> table) option" where
  "resolve s t = resolve_in (relations s @ materialized_views s) (search_path s) t"

text \<open>The cell of a row under a column name; a column the row does not reach reads NULL.\<close>

definition cell_of :: "ident list \<Rightarrow> row \<Rightarrow> ident \<Rightarrow> cell" where
  "cell_of cols r c = (case map_of (zip cols r) c of Some v \<Rightarrow> v | None \<Rightarrow> None)"

text \<open>
  The view \<^verbatim>\<open>information_schema.columns\<close>: one row (schema, table, column) for every
  column of every table of the store, whatever its schema, in the order of the store. The
  materialized views are not in it.
\<close>

definition information_schema_columns :: "store \<Rightarrow> (ident \<times> ident \<times> ident) list" where
  "information_schema_columns s =
     concat (map (\<lambda>((sch, t), tb). map (\<lambda>c. (sch, t, c)) (columns tb)) (relations s))"

text \<open>The aggregate MAX skips NULL and is NULL when nothing else is left.\<close>

fun sql_max :: "cell list \<Rightarrow> cell" where
  "sql_max [] = None"
| "sql_max (None # vs) = sql_max vs"
| "sql_max (Some i # vs) = (case sql_max vs of None \<Rightarrow> Some i | Some m \<Rightarrow> Some (max i m))"

subsection \<open>The statements the program executes\<close>

text \<open>\<^verbatim>\<open>SELECT MAX(c) FROM t\<close>: the one cell of the one row of the answer.\<close>

definition select_max :: "store \<Rightarrow> ident \<Rightarrow> ident \<Rightarrow> error + cell" where
  "select_max s c t =
     (case resolve s t of
        None \<Rightarrow> Inl (UndefinedTable t)
      | Some (sch, tb) \<Rightarrow>
          if c \<notin> set (columns tb) then Inl (UndefinedColumn c)
          else Inr (sql_max (map (\<lambda>r. cell_of (columns tb) r c) (rows tb))))"

text \<open>
  \<^verbatim>\<open>SELECT column_name FROM information_schema.columns WHERE table_name = 't'\<close>:
  the column names of the rows of the view whose table name is \<open>t\<close>, in the view's order.
\<close>

definition select_column_names :: "store \<Rightarrow> ident \<Rightarrow> ident list" where
  "select_column_names s t =
     map (\<lambda>(sch, n, c). c) (filter (\<lambda>(sch, n, c). n = t) (information_schema_columns s))"

text \<open>
  \<^verbatim>\<open>SELECT cols FROM t WHERE k > w\<close>: every row of \<open>t\<close> whose cell \<open>k\<close> is an integer above
  \<open>w\<close> (a NULL compares as unknown and the row is left out), projected on \<open>cols\<close>.
  Postgres takes an empty projection and answers with empty tuples.
\<close>

definition select_where_greater :: "store \<Rightarrow> ident list \<Rightarrow> ident \<Rightarrow> ident \<Rightarrow> int \<Rightarrow> error + row list" where
  "select_where_greater s cols t k w =
     (case resolve s t of
        None \<Rightarrow> Inl (UndefinedTable t)
      | Some (sch, tb) \<Rightarrow>
          (case find (\<lambda>c. c \<notin> set (columns tb)) (cols @ [k]) of
             Some c \<Rightarrow> Inl (UndefinedColumn c)
           | None \<Rightarrow>
               Inr (map (\<lambda>r. map (cell_of (columns tb) r) cols)
                      (filter (\<lambda>r. case cell_of (columns tb) r k of Some i \<Rightarrow> w < i | None \<Rightarrow> False)
                         (rows tb)))))"

text \<open>
  \<^verbatim>\<open>INSERT INTO t (cols) VALUES (%s, ..., %s)\<close> with the parameters \<open>vals\<close>, each
  statement committed on its own: one row is appended, the named columns take the
  parameters in order and every other column is NULL. An empty column list is a syntax
  error, and a materialized view takes no row. A statement that fails leaves the store as
  it was.
\<close>

definition insert_values :: "store \<Rightarrow> ident \<Rightarrow> ident list \<Rightarrow> row \<Rightarrow> error + store" where
  "insert_values s t cols vals =
     (if cols = [] then Inl SyntaxError
      else case resolve s t of
        None \<Rightarrow> Inl (UndefinedTable t)
      | Some (sch, tb) \<Rightarrow>
          if map_of (relations s) (sch, t) = None then Inl (NotATable t)
          else
          (case find (\<lambda>c. c \<notin> set (columns tb)) cols of
             Some c \<Rightarrow> Inl (UndefinedColumn c)
           | None \<Rightarrow>
               if \<not> distinct cols then Inl DuplicateColumn
               else if length vals \<noteq> length cols then Inl BindError
               else let new = map (cell_of cols vals) (columns tb) in
                 (case find (\<lambda>c. cell_of (columns tb) new c = None) (not_null tb) of
                    Some c \<Rightarrow> Inl (NotNullViolation c)
                  | None \<Rightarrow>
                      Inr (s\<lparr>relations :=
                             AList.update (sch, t) (tb\<lparr>rows := rows tb @ [new]\<rparr>) (relations s)\<rparr>))))"

subsection \<open>The text of the statements\<close>

text \<open>Python's \<^verbatim>\<open>sep.join(xs)\<close> and \<^verbatim>\<open>str(n)\<close> of an integer.\<close>

fun join :: "string \<Rightarrow> string list \<Rightarrow> string" where
  "join sep [] = []"
| "join sep [x] = x"
| "join sep (x # y # ys) = x @ sep @ join sep (y # ys)"

fun str_nat :: "nat \<Rightarrow> string" where
  "str_nat n =
     (if n < 10 then [''0123456789'' ! n]
      else str_nat (n div 10) @ [''0123456789'' ! (n mod 10)])"

definition str_int :: "int \<Rightarrow> string" where
  "str_int i = (if i < 0 then ''-'' @ str_nat (nat (- i)) else str_nat (nat i))"

definition primary_key :: "string \<Rightarrow> string" where
  "primary_key table_name = ''ID_'' @ table_name"

definition columns_list_str :: "string list \<Rightarrow> string" where
  "columns_list_str cols = join '', '' cols"

definition placeholders :: "string list \<Rightarrow> string" where
  "placeholders cols = join '', '' (replicate (length cols) ''%s'')"

definition max_query :: "string \<Rightarrow> string" where
  "max_query table_name = ''SELECT MAX(ID_'' @ table_name @ '') FROM '' @ table_name"

definition columns_query :: "string \<Rightarrow> string" where
  "columns_query table_name =
     ''SELECT column_name FROM information_schema.columns WHERE table_name = ''
       @ [CHR 0x27] @ table_name @ [CHR 0x27]"

definition extraction_query :: "string \<Rightarrow> string list \<Rightarrow> int \<Rightarrow> string" where
  "extraction_query table_name cols max_id =
     ''SELECT '' @ columns_list_str cols @ '' FROM '' @ table_name
       @ '' WHERE '' @ primary_key table_name @ '' > '' @ str_int max_id"

definition insert_query :: "string \<Rightarrow> string list \<Rightarrow> string" where
  "insert_query table_name cols =
     ''INSERT INTO '' @ table_name @ '' ('' @ columns_list_str cols
       @ '') VALUES ('' @ placeholders cols @ '')''"

subsection \<open>The two tasks\<close>

text \<open>
  \<^verbatim>\<open>get_max_primary_key\<close> executes \<open>max_query\<close> on Snowflake, reads the cell with
  \<^verbatim>\<open>fetchone()[0]\<close> and returns it, or 0 when it is \<^verbatim>\<open>None\<close>. The result comes with
  the world the task leaves behind.
\<close>

definition get_max_primary_key :: "world \<Rightarrow> string \<Rightarrow> (error + int) \<times> world" where
  "get_max_primary_key w table_name =
     (case select_max (snowflake w) (primary_key table_name) table_name of
        Inl e \<Rightarrow> (Inl e, w)
      | Inr max_id \<Rightarrow> (Inr (case max_id of Some m \<Rightarrow> m | None \<Rightarrow> 0), w))"

text \<open>
  The column list of \<^verbatim>\<open>load_incremental_data\<close> is the answer to \<open>columns_query\<close> on
  Postgres; the batch is the answer to \<open>extraction_query\<close> with that list.
\<close>

definition discovered_columns :: "world \<Rightarrow> string \<Rightarrow> string list" where
  "discovered_columns w table_name = select_column_names (postgres w) table_name"

definition extracted_rows :: "world \<Rightarrow> string \<Rightarrow> int \<Rightarrow> error + row list" where
  "extracted_rows w table_name max_id =
     select_where_greater (postgres w) (discovered_columns w table_name) table_name
       (primary_key table_name) max_id"

text \<open>The loop \<^verbatim>\<open>for row in rows: sf_cursor.execute(insert_query, row)\<close>: the first
  statement that raises ends it, and the store keeps what was inserted before.\<close>

fun insert_rows :: "store \<Rightarrow> string \<Rightarrow> string list \<Rightarrow> row list \<Rightarrow> (error + unit) \<times> store" where
  "insert_rows s table_name cols [] = (Inr (), s)"
| "insert_rows s table_name cols (r # rs) =
     (case insert_values s table_name cols r of
        Inl e \<Rightarrow> (Inl e, s)
      | Inr s' \<Rightarrow> insert_rows s' table_name cols rs)"

definition load_incremental_data :: "world \<Rightarrow> string \<Rightarrow> int \<Rightarrow> (error + unit) \<times> world" where
  "load_incremental_data w table_name max_id =
     (case extracted_rows w table_name max_id of
        Inl e \<Rightarrow> (Inl e, w)
      | Inr rs \<Rightarrow>
          (case insert_rows (snowflake w) table_name (discovered_columns w table_name) rs of
             (res, sf) \<Rightarrow> (res, w\<lparr>snowflake := sf\<rparr>)))"

text \<open>One run of the DAG for one table: \<^verbatim>\<open>max_id = get_max_primary_key(table_name)\<close>,
  then \<^verbatim>\<open>load_incremental_data(table_name, max_id)\<close>, which runs only when the first
  task succeeded.\<close>

definition pipeline :: "world \<Rightarrow> string \<Rightarrow> (error + unit) \<times> world" where
  "pipeline w table_name =
     (case get_max_primary_key w table_name of
        (Inl e, w') \<Rightarrow> (Inl e, w')
      | (Inr max_id, w') \<Rightarrow> load_incremental_data w' table_name max_id)"

text \<open>
  The DAG is scheduled day after day. Between two runs the source may have changed in any
  way; the destination is written by the pipeline only. A run that fails leaves the world
  it has reached to the next one.
\<close>

fun scheduled_runs :: "world \<Rightarrow> string \<Rightarrow> store list \<Rightarrow> world" where
  "scheduled_runs w table_name [] = w"
| "scheduled_runs w table_name (src # srcs) =
     scheduled_runs (snd (pipeline (w\<lparr>postgres := src\<rparr>) table_name)) table_name srcs"

subsection \<open>Reading a table by its unqualified name\<close>

definition table_rows :: "store \<Rightarrow> ident \<Rightarrow> row list" where
  "table_rows s t = (case resolve s t of Some (sch, tb) \<Rightarrow> rows tb | None \<Rightarrow> [])"

definition table_columns :: "store \<Rightarrow> ident \<Rightarrow> ident list" where
  "table_columns s t = (case resolve s t of Some (sch, tb) \<Rightarrow> columns tb | None \<Rightarrow> [])"

subsection \<open>Example stores\<close>

text \<open>
  The scenario of the specification: the destination table \<open>estados\<close> holds the keys 1, 2
  and 3, the source table the keys 1 to 5. The destination lists its columns in another
  order than the source.
\<close>

definition src_estados :: table where
  "src_estados =
     \<lparr>columns = [''ID_estados'', ''uf''], not_null = [],
      rows = [[Some 1, Some 10], [Some 2, Some 20], [Some 3, Some 30], [Some 4, Some 40],
              [Some 5, None]]\<rparr>"

definition dst_estados :: table where
  "dst_estados =
     \<lparr>columns = [''uf'', ''ID_estados''], not_null = [''ID_estados''],
      rows = [[Some 10, Some 1], [Some 20, Some 2], [Some 30, Some 3]]\<rparr>"

definition pg_example :: store where
  "pg_example = \<lparr>relations = [((''public'', ''estados''), src_estados)], materialized_views = [], search_path = [''public'']\<rparr>"

definition sf_example :: store where
  "sf_example = \<lparr>relations = [((''PUBLIC'', ''estados''), dst_estados)], materialized_views = [], search_path = [''PUBLIC'']\<rparr>"

definition example_world :: world where
  "example_world = \<lparr>postgres = pg_example, snowflake = sf_example\<rparr>"

text \<open>A source in which a second schema has a table of the same name.\<close>

definition pg_two_schemas :: store where
  "pg_two_schemas =
     \<lparr>relations = [((''public'', ''estados''), src_estados),
                   ((''staging'', ''estados''),
                    \<lparr>columns = [''ID_estados'', ''sigla''], not_null = [], rows = []\<rparr>)],
      materialized_views = [], search_path = [''public'']\<rparr>"

definition two_schema_world :: world where
  "two_schema_world = \<lparr>postgres = pg_two_schemas, snowflake = sf_example\<rparr>"

text \<open>The destination of the scenario after the two missing rows have been loaded.\<close>

definition sf_example_loaded :: store where
  "sf_example_loaded =
     \<lparr>relations = [((''PUBLIC'', ''estados''),
                    dst_estados\<lparr>rows := rows dst_estados @ [[Some 40, Some 4], [None, Some 5]]\<rparr>)],
      materialized_views = [], search_path = [''PUBLIC'']\<rparr>"




text \<open>
  A source in which \<open>estados\<close> is a materialized view: it is read like the table, and the
  catalog has no column for it.
\<close>

definition pg_matview :: store where
  "pg_matview =
     \<lparr>relations = [], materialized_views = [((''public'', ''estados''), src_estados)],
      search_path = [''public'']\<rparr>"

definition matview_world :: world where
  "matview_world = \<lparr>postgres = pg_matview, snowflake = sf_example_loaded\<rparr>"








section \<open>Properties\<close>

subsection \<open>The text of the statements, on an example\<close>

lemma extraction_query_example:
  "extraction_query ''estados'' [''ID_estados'', ''uf''] 1203 =
     ''SELECT ID_estados, uf FROM estados WHERE ID_estados > 1203''"
  by (simp add: extraction_query_def columns_list_str_def primary_key_def str_int_def)

lemma max_query_example:
  "max_query ''estados'' = ''SELECT MAX(ID_estados) FROM estados''"
  by (simp add: max_query_def)

lemma columns_query_example:
  "columns_query ''estados'' =
     ''SELECT column_name FROM information_schema.columns WHERE table_name = ''
       @ CHR 0x27 # ''estados'' @ [CHR 0x27]"
  by (simp add: columns_query_def)

lemma insert_query_example:
  "insert_query ''estados'' [''ID_estados'', ''uf''] =
     ''INSERT INTO estados (ID_estados, uf) VALUES (%s, %s)''"
  by (simp add: insert_query_def columns_list_str_def placeholders_def numeral_2_eq_2)

subsection \<open>Name resolution\<close>

lemma resolve_in_map_of:
  "resolve_in rels path t = Some (sch, tb) \<Longrightarrow> map_of rels (sch, t) = Some tb"
  by (induction path) (auto split: option.splits)

lemma resolve_in_update:
  "resolve_in rels path t = Some (sch, tb) \<Longrightarrow>
   resolve_in (AList.update (sch, t) tb' rels) path t = Some (sch, tb')"
  by (induction path) (auto simp: update_conv' split: option.splits)

lemma update_append_present:
  "map_of xs k \<noteq> None \<Longrightarrow> AList.update k v (xs @ ys) = AList.update k v xs @ ys"
  by (induction xs) auto

lemma resolve_update:
  "resolve s t = Some (sch, tb) \<Longrightarrow> map_of (relations s) (sch, t) \<noteq> None \<Longrightarrow>
   resolve (s\<lparr>relations := AList.update (sch, t) tb' (relations s)\<rparr>) t = Some (sch, tb')"
  using resolve_in_update[of "relations s @ materialized_views s" "search_path s" t sch tb tb']
  by (simp add: resolve_def update_append_present)

subsection \<open>Cells\<close>

lemma cell_of_map: "c \<in> set cols \<Longrightarrow> cell_of cols (map f cols) c = f c"
  by (simp add: cell_of_def map_of_zip_map)

lemma cell_of_absent: "c \<notin> set cols \<Longrightarrow> cell_of cols r c = None"
proof -
  assume "c \<notin> set cols"
  then have "c \<notin> fst ` set (zip cols r)" by (auto dest: set_zip_leftD)
  then have "map_of (zip cols r) c = None" by (simp add: map_of_eq_None_iff)
  then show ?thesis by (simp add: cell_of_def)
qed

lemma map_cell_of_id:
  assumes "distinct cols" and "length r = length cols"
  shows "map (cell_of cols r) cols = r"
proof (rule nth_equalityI)
  show "length (map (cell_of cols r) cols) = length r" using assms(2) by simp
next
  fix i assume "i < length (map (cell_of cols r) cols)"
  then have i: "i < length r" using assms(2) by simp
  from map_of_zip_nth[OF assms(2)[symmetric] assms(1) i]
  have "cell_of cols r (cols ! i) = r ! i" by (simp add: cell_of_def)
  with i assms(2) show "map (cell_of cols r) cols ! i = r ! i" by simp
qed

subsection \<open>The aggregate\<close>

lemma sql_max_None_iff: "sql_max cs = None \<longleftrightarrow> (\<forall>c\<in>set cs. c = None)"
  by (induction cs rule: sql_max.induct) (auto split: option.splits)

lemma sql_max_Some:
  "sql_max cs = Some m \<Longrightarrow> Some m \<in> set cs \<and> (\<forall>i. Some i \<in> set cs \<longrightarrow> i \<le> m)"
proof (induction cs arbitrary: m rule: sql_max.induct)
  case 1
  then show ?case by simp
next
  case (2 vs)
  then show ?case by simp
next
  case (3 i vs)
  show ?case
  proof (cases "sql_max vs")
    case None
    with "3.prems" have "m = i" by simp
    moreover from None have "\<forall>c\<in>set vs. c = None" by (simp add: sql_max_None_iff)
    ultimately show ?thesis by auto
  next
    case (Some k)
    with "3.prems" have m: "m = max i k" by simp
    from "3.IH"[OF Some] have k: "Some k \<in> set vs" "\<forall>j. Some j \<in> set vs \<longrightarrow> j \<le> k" by auto
    show ?thesis using m k by (auto simp: max_def)
  qed
qed


text \<open>Appending cells that all lie above the watermark does not lower it.\<close>

lemma sql_max_append_above:
  assumes "\<forall>p. Some p \<in> set ys \<longrightarrow> (case sql_max xs of Some m \<Rightarrow> m | None \<Rightarrow> 0) < p"
  shows "(case sql_max xs of Some m \<Rightarrow> m | None \<Rightarrow> 0) \<le> (case sql_max (xs @ ys) of Some m \<Rightarrow> m | None \<Rightarrow> 0)"
    and "\<forall>p. Some p \<in> set (xs @ ys) \<longrightarrow> p \<le> (case sql_max (xs @ ys) of Some m \<Rightarrow> m | None \<Rightarrow> 0)"
proof -
  show "\<forall>p. Some p \<in> set (xs @ ys) \<longrightarrow> p \<le> (case sql_max (xs @ ys) of Some m \<Rightarrow> m | None \<Rightarrow> 0)"
  proof (cases "sql_max (xs @ ys)")
    case None
    then have "\<forall>c\<in>set (xs @ ys). c = None" by (simp only: sql_max_None_iff)
    then show ?thesis by auto
  next
    case (Some m')
    from sql_max_Some[OF Some] Some show ?thesis by simp
  qed
  show "(case sql_max xs of Some m \<Rightarrow> m | None \<Rightarrow> 0) \<le> (case sql_max (xs @ ys) of Some m \<Rightarrow> m | None \<Rightarrow> 0)"
  proof (cases "sql_max (xs @ ys)")
    case None
    then have "\<forall>c\<in>set (xs @ ys). c = None" by (simp only: sql_max_None_iff)
    then have "\<forall>c\<in>set xs. c = None" by simp
    then have "sql_max xs = None" by (simp only: sql_max_None_iff)
    with None show ?thesis by simp
  next
    case (Some m')
    note m' = sql_max_Some[OF Some]
    show ?thesis
    proof (cases "sql_max xs")
      case None
      then have n: "\<forall>c\<in>set xs. c = None" by (simp only: sql_max_None_iff)
      with m' have "Some m' \<in> set ys" by auto
      with assms None have "0 < m'" by simp
      with None Some show ?thesis by simp
    next
      case (Some m)
      from sql_max_Some[OF Some] m' have "m \<le> m'" by simp
      with Some \<open>sql_max (xs @ ys) = Some m'\<close> show ?thesis by simp
    qed
  qed
qed

subsection \<open>The watermark reader\<close>

text \<open>
  Claim C8: \<open>get_max_primary_key\<close> leaves both stores as they were. Its one statement is
  a SELECT, so the world it returns is the world it was given, whether the statement
  succeeds or raises.
\<close>

theorem get_max_primary_key_reads_only:
  "snd (get_max_primary_key w table_name) = w"
  by (simp add: get_max_primary_key_def split: sum.splits)



lemma get_max_Inr:
  assumes "fst (get_max_primary_key w t) = Inr m"
  obtains sch tb where "resolve (snowflake w) t = Some (sch, tb)"
    and "primary_key t \<in> set (columns tb)"
    and "m = (case sql_max (map (\<lambda>r. cell_of (columns tb) r (primary_key t)) (rows tb)) of
                Some i \<Rightarrow> i | None \<Rightarrow> 0)"
proof -
  from assms obtain sch tb where r: "resolve (snowflake w) t = Some (sch, tb)"
    by (auto simp: get_max_primary_key_def select_max_def split: option.splits sum.splits)
  from assms r have k: "primary_key t \<in> set (columns tb)"
    by (auto simp: get_max_primary_key_def select_max_def split: if_splits)
  from assms r k have "m = (case sql_max (map (\<lambda>r. cell_of (columns tb) r (primary_key t)) (rows tb)) of
                Some i \<Rightarrow> i | None \<Rightarrow> 0)"
    by (simp add: get_max_primary_key_def select_max_def)
  with r k show ?thesis by (rule that)
qed

lemma get_max_depends_on_snowflake:
  "fst (get_max_primary_key (w\<lparr>postgres := src\<rparr>) t) = fst (get_max_primary_key w t)"
  by (simp add: get_max_primary_key_def split: sum.splits)

lemma example_get_max: "get_max_primary_key example_world ''estados'' = (Inr 3, example_world)"
  by (simp add: get_max_primary_key_def select_max_def resolve_def example_world_def
      sf_example_def dst_estados_def primary_key_def cell_of_def)

lemma example_get_max_loaded:
  "get_max_primary_key (example_world\<lparr>snowflake := sf_example_loaded\<rparr>) ''estados'' =
     (Inr 5, example_world\<lparr>snowflake := sf_example_loaded\<rparr>)"
  by (simp add: get_max_primary_key_def select_max_def resolve_def
      sf_example_loaded_def dst_estados_def primary_key_def cell_of_def)

subsection \<open>Column discovery\<close>

lemma catalog_names_concat:
  "map (\<lambda>(sch, n, c). c)
     (filter (\<lambda>(sch, n, c). n = t)
        (concat (map (\<lambda>((sch, n), tb). map (\<lambda>c. (sch, n, c)) (columns tb)) rels))) =
   concat (map (\<lambda>(k, tb). columns tb) (filter (\<lambda>((sch, n), tb). n = t) rels))"
  by (induction rels) (auto simp: filter_map o_def)

lemma select_column_names_concat:
  "select_column_names s t =
     concat (map (\<lambda>(k, tb). columns tb) (filter (\<lambda>((sch, n), tb). n = t) (relations s)))"
  by (simp add: select_column_names_def information_schema_columns_def catalog_names_concat)

lemma select_column_names_superset:
  "((sch, t), tb) \<in> set (relations s) \<Longrightarrow> set (columns tb) \<subseteq> set (select_column_names s t)"
  by (force simp: select_column_names_concat)

text \<open>
  Claim C10: column discovery looks at the table name only. The discovered list is the
  columns of every table of that name, of whatever schema, one table after the other in
  the order of the catalog; so the columns of each such table are all in the list.
\<close>

theorem discovery_by_table_name_only:
  "discovered_columns w table_name =
     concat (map (\<lambda>(k, tb). columns tb)
       (filter (\<lambda>((sch, n), tb). n = table_name) (relations (postgres w))))
   \<and> (\<forall>sch tb. ((sch, table_name), tb) \<in> set (relations (postgres w)) \<longrightarrow>
         set (columns tb) \<subseteq> set (discovered_columns w table_name))"
  unfolding discovered_columns_def
  using select_column_names_superset by (simp add: select_column_names_concat)

theorem discovery_by_table_name_only_witness:
  "((''staging'', ''estados''), \<lparr>columns = [''ID_estados'', ''sigla''], not_null = [], rows = []\<rparr>)
      \<in> set (relations (postgres two_schema_world))
   \<and> discovered_columns two_schema_world ''estados'' =
       [''ID_estados'', ''uf'', ''ID_estados'', ''sigla'']
   \<and> set [''ID_estados'', ''sigla''] \<subseteq> set (discovered_columns two_schema_world ''estados'')"
  using discovery_by_table_name_only[of two_schema_world "''estados''"]
  by (simp add: two_schema_world_def pg_two_schemas_def src_estados_def)

lemma example_discovered:
  "discovered_columns example_world ''estados'' = [''ID_estados'', ''uf'']"
  by (simp add: discovered_columns_def select_column_names_def
      information_schema_columns_def example_world_def pg_example_def src_estados_def)


subsection \<open>Extraction\<close>

lemma extracted_rows_Inr:
  assumes "extracted_rows w t m = Inr rs"
  obtains sch tb where "resolve (postgres w) t = Some (sch, tb)"
    and "set (discovered_columns w t) \<subseteq> set (columns tb)"
    and "primary_key t \<in> set (columns tb)"
    and "rs = map (\<lambda>r. map (cell_of (columns tb) r) (discovered_columns w t))
                (filter (\<lambda>r. \<exists>i. cell_of (columns tb) r (primary_key t) = Some i \<and> m < i)
                   (rows tb))"
proof -
  from assms obtain sch tb where r: "resolve (postgres w) t = Some (sch, tb)"
    and f: "find (\<lambda>c. c \<notin> set (columns tb)) (discovered_columns w t @ [primary_key t]) = None"
    by (auto simp: extracted_rows_def select_where_greater_def split: option.splits)
  have p: "(\<lambda>r. case cell_of (columns tb) r (primary_key t) of Some i \<Rightarrow> m < i | None \<Rightarrow> False)
         = (\<lambda>r. \<exists>i. cell_of (columns tb) r (primary_key t) = Some i \<and> m < i)"
    by (auto split: option.splits)
  from assms r f have "rs = map (\<lambda>r. map (cell_of (columns tb) r) (discovered_columns w t))
      (filter (\<lambda>r. case cell_of (columns tb) r (primary_key t) of Some i \<Rightarrow> m < i | None \<Rightarrow> False)
         (rows tb))"
    by (simp add: extracted_rows_def select_where_greater_def)
  then have rs: "rs = map (\<lambda>r. map (cell_of (columns tb) r) (discovered_columns w t))
      (filter (\<lambda>r. \<exists>i. cell_of (columns tb) r (primary_key t) = Some i \<and> m < i) (rows tb))"
    by (simp only: p)
  from f have sub: "set (discovered_columns w t) \<subseteq> set (columns tb)"
    and key: "primary_key t \<in> set (columns tb)" by (auto simp: find_None_iff)
  from r sub key rs show ?thesis by (rule that)
qed

lemma extracted_row_key:
  assumes "extracted_rows w t m = Inr rs" and "v \<in> set rs"
    and "cell_of (discovered_columns w t) v (primary_key t) = Some p"
  shows "m < p"
proof -
  from assms(1) obtain sch tb where "resolve (postgres w) t = Some (sch, tb)"
    and "set (discovered_columns w t) \<subseteq> set (columns tb)"
    and "primary_key t \<in> set (columns tb)"
    and rs: "rs = map (\<lambda>r. map (cell_of (columns tb) r) (discovered_columns w t))
                (filter (\<lambda>r. \<exists>i. cell_of (columns tb) r (primary_key t) = Some i \<and> m < i)
                   (rows tb))"
    by (rule extracted_rows_Inr)
  from assms(2) rs obtain r i where v: "v = map (cell_of (columns tb) r) (discovered_columns w t)"
    and i: "cell_of (columns tb) r (primary_key t) = Some i" "m < i" by auto
  from assms(3) have "primary_key t \<in> set (discovered_columns w t)"
    by (rule contrapos_pp) (simp add: cell_of_absent)
  from cell_of_map[OF this] v i assms(3) show ?thesis by simp
qed


text \<open>The scenario, evaluated.\<close>

lemma example_extracted:
  "extracted_rows example_world ''estados'' 3 = Inr [[Some 4, Some 40], [Some 5, None]]"
  by (simp add: extracted_rows_def discovered_columns_def select_column_names_def
      information_schema_columns_def select_where_greater_def resolve_def example_world_def
      pg_example_def src_estados_def primary_key_def cell_of_def)


text \<open>
  Claim C1: when the extraction statement is answered, the batch is the rows of the source
  table whose primary key is an integer above the watermark, each projected on the
  discovered columns, in the order of the table: no other row is in it and none of them
  is missing. Where the discovered columns are the columns of the table, the batch is
  those rows themselves.
\<close>

theorem extraction_is_exact_delta:
  assumes "extracted_rows w table_name max_id = Inr rs"
  shows "\<exists>sch tb. resolve (postgres w) table_name = Some (sch, tb)
           \<and> rs = map (\<lambda>r. map (cell_of (columns tb) r) (discovered_columns w table_name))
                  (filter (\<lambda>r. \<exists>i. cell_of (columns tb) r (primary_key table_name) = Some i \<and> max_id < i)
                     (rows tb))
           \<and> (discovered_columns w table_name = columns tb \<and> distinct (columns tb)
                \<and> (\<forall>r\<in>set (rows tb). length r = length (columns tb))
              \<longrightarrow> rs = filter (\<lambda>r. \<exists>i. cell_of (columns tb) r (primary_key table_name) = Some i \<and> max_id < i)
                        (rows tb))"
proof -
  from assms obtain sch tb where r: "resolve (postgres w) table_name = Some (sch, tb)"
    and "set (discovered_columns w table_name) \<subseteq> set (columns tb)"
    and "primary_key table_name \<in> set (columns tb)"
    and rs: "rs = map (\<lambda>r. map (cell_of (columns tb) r) (discovered_columns w table_name))
                (filter (\<lambda>r. \<exists>i. cell_of (columns tb) r (primary_key table_name) = Some i \<and> max_id < i)
                   (rows tb))"
    by (rule extracted_rows_Inr)
  have "rs = filter (\<lambda>r. \<exists>i. cell_of (columns tb) r (primary_key table_name) = Some i \<and> max_id < i) (rows tb)"
    if "discovered_columns w table_name = columns tb" and "distinct (columns tb)"
      and "\<forall>r\<in>set (rows tb). length r = length (columns tb)"
  proof -
    have "map (\<lambda>r. map (cell_of (columns tb) r) (columns tb))
            (filter (\<lambda>r. \<exists>i. cell_of (columns tb) r (primary_key table_name) = Some i \<and> max_id < i) (rows tb))
          = filter (\<lambda>r. \<exists>i. cell_of (columns tb) r (primary_key table_name) = Some i \<and> max_id < i) (rows tb)"
      using that(2,3) by (intro map_idI) (simp add: map_cell_of_id)
    with rs that(1) show ?thesis by simp
  qed
  with r rs show ?thesis by blast
qed

theorem extraction_is_exact_delta_witness:
  "extracted_rows example_world ''estados'' 3 = Inr [[Some 4, Some 40], [Some 5, None]]
   \<and> (\<exists>sch tb. resolve (postgres example_world) ''estados'' = Some (sch, tb)
         \<and> [[Some 4, Some 40], [Some 5, None]] =
             map (\<lambda>r. map (cell_of (columns tb) r) (discovered_columns example_world ''estados''))
               (filter (\<lambda>r. \<exists>i. cell_of (columns tb) r (primary_key ''estados'') = Some i \<and> 3 < i)
                  (rows tb))
         \<and> (discovered_columns example_world ''estados'' = columns tb \<and> distinct (columns tb)
               \<and> (\<forall>r\<in>set (rows tb). length r = length (columns tb))
             \<longrightarrow> [[Some 4, Some 40], [Some 5, None]] =
                   filter (\<lambda>r. \<exists>i. cell_of (columns tb) r (primary_key ''estados'') = Some i \<and> 3 < i)
                     (rows tb)))
   \<and> discovered_columns example_world ''estados'' = columns src_estados
   \<and> distinct (columns src_estados)
   \<and> list_all (\<lambda>r. length r = length (columns src_estados)) (rows src_estados)"
  using extraction_is_exact_delta[OF example_extracted] example_extracted example_discovered
  by (simp add: src_estados_def)

lemma matview_discovered: "discovered_columns matview_world ''estados'' = []"
  by (simp add: discovered_columns_def select_column_names_def information_schema_columns_def
      matview_world_def pg_matview_def)

lemma matview_resolve:
  "resolve (postgres matview_world) ''estados'' = Some (''public'', src_estados)"
  by (simp add: resolve_def matview_world_def pg_matview_def)

text \<open>
  Claim C6 does not hold as stated: the load has no check of the discovered list. On a
  source where \<open>estados\<close> is a materialized view the discovery finds no column, the
  extraction statement, with its empty projection, is answered with no row above the
  watermark 5, the loop runs zero times and the load returns normally; so does the whole
  run.
\<close>

theorem zero_columns_silent_success:
  "discovered_columns matview_world ''estados'' = []
   \<and> load_incremental_data matview_world ''estados'' 5 = (Inr (), matview_world)
   \<and> pipeline matview_world ''estados'' = (Inr (), matview_world)"
proof -
  have e: "extracted_rows matview_world ''estados'' 5 = Inr []"
    by (simp add: extracted_rows_def matview_discovered select_where_greater_def
        matview_resolve)
       (simp add: src_estados_def primary_key_def cell_of_def)
  have l: "load_incremental_data matview_world ''estados'' 5 = (Inr (), matview_world)"
    by (simp add: load_incremental_data_def e)
  have g: "get_max_primary_key matview_world ''estados'' = (Inr 5, matview_world)"
    by (simp add: get_max_primary_key_def select_max_def resolve_def matview_world_def
        sf_example_loaded_def dst_estados_def primary_key_def cell_of_def)
  from l g matview_discovered show ?thesis by (simp add: pipeline_def)
qed

text \<open>
  Claim C6, amended: when column discovery finds no column, the load raises where the
  table name resolves to no relation of the source, where the relation has no primary-key
  column, and where some row has a key above the watermark (the INSERT with an empty
  column list is refused at the first row); where the relation has the primary-key column
  and no key above the watermark, the load returns normally. Nothing is written in any
  of these cases.
\<close>

theorem zero_columns_outcome:
  assumes "discovered_columns w table_name = []"
  shows "load_incremental_data w table_name max_id =
           (case resolve (postgres w) table_name of
              None \<Rightarrow> (Inl (UndefinedTable table_name), w)
            | Some (sch, tb) \<Rightarrow>
                if primary_key table_name \<notin> set (columns tb)
                then (Inl (UndefinedColumn (primary_key table_name)), w)
                else if \<exists>r\<in>set (rows tb). \<exists>i.
                          cell_of (columns tb) r (primary_key table_name) = Some i \<and> max_id < i
                then (Inl SyntaxError, w)
                else (Inr (), w))"
proof (cases "resolve (postgres w) table_name")
  case None
  then show ?thesis
    by (simp add: load_incremental_data_def extracted_rows_def select_where_greater_def)
next
  case (Some p)
  obtain sch tb where p: "p = (sch, tb)" by (cases p)
  let ?k = "primary_key table_name"
  let ?sel = "filter (\<lambda>r. case cell_of (columns tb) r ?k of Some i \<Rightarrow> max_id < i | None \<Rightarrow> False)
                (rows tb)"
  show ?thesis
  proof (cases "?k \<in> set (columns tb)")
    case False
    with Some p assms show ?thesis
      by (simp add: load_incremental_data_def extracted_rows_def select_where_greater_def)
  next
    case True
    with Some p assms
    have ex: "extracted_rows w table_name max_id = Inr (map (\<lambda>r. []) ?sel)"
      by (simp add: extracted_rows_def select_where_greater_def)
    have iff: "(\<exists>r\<in>set (rows tb). \<exists>i. cell_of (columns tb) r ?k = Some i \<and> max_id < i)
                 \<longleftrightarrow> ?sel \<noteq> []"
      by (auto simp: filter_empty_conv split: option.splits)
    show ?thesis
    proof (cases ?sel)
      case Nil
      with ex have "load_incremental_data w table_name max_id = (Inr (), w)"
        by (simp add: load_incremental_data_def)
      with Some p True iff Nil show ?thesis by simp
    next
      case (Cons r rs)
      with ex assms have "load_incremental_data w table_name max_id = (Inl SyntaxError, w)"
        by (simp add: load_incremental_data_def insert_values_def)
      with Some p True iff Cons show ?thesis by simp
    qed
  qed
qed

theorem zero_columns_outcome_witness:
  "discovered_columns matview_world ''estados'' = []
   \<and> load_incremental_data matview_world ''estados'' 3 = (Inl SyntaxError, matview_world)
   \<and> discovered_columns example_world ''clientes'' = []
   \<and> load_incremental_data example_world ''clientes'' 0 = (Inl (UndefinedTable ''clientes''), example_world)"
proof -
  have h: "discovered_columns example_world ''clientes'' = []"
    by (simp add: discovered_columns_def select_column_names_def information_schema_columns_def
        example_world_def pg_example_def)
  have r: "resolve (postgres example_world) ''clientes'' = None"
    by (simp add: resolve_def example_world_def pg_example_def)
  have a: "load_incremental_data matview_world ''estados'' 3 = (Inl SyntaxError, matview_world)"
    using zero_columns_outcome[OF matview_discovered, of 3]
    by (simp add: matview_resolve) (simp add: src_estados_def primary_key_def cell_of_def)
  have b: "load_incremental_data example_world ''clientes'' 0 = (Inl (UndefinedTable ''clientes''), example_world)"
    using zero_columns_outcome[OF h, of 0] by (simp add: r)
  from matview_discovered h a b show ?thesis by simp
qed

subsection \<open>Insertion\<close>

lemma find_None_subset: "find (\<lambda>c. c \<notin> A) cols = None \<longleftrightarrow> set cols \<subseteq> A"
  by (auto simp: find_None_iff)

lemma insert_values_Inr:
  assumes "insert_values s t cols vals = Inr s'"
  shows "\<exists>sch tb. resolve s t = Some (sch, tb) \<and> map_of (relations s) (sch, t) \<noteq> None
           \<and> set cols \<subseteq> set (columns tb)
           \<and> s' = s\<lparr>relations := AList.update (sch, t)
                    (tb\<lparr>rows := rows tb @ [map (cell_of cols vals) (columns tb)]\<rparr>) (relations s)\<rparr>"
  using assms
  by (auto simp: insert_values_def Let_def find_None_subset[symmetric]
      split: if_splits option.splits)

lemma insert_values_resolve:
  assumes "insert_values s t cols vals = Inr s'" and "resolve s t = Some (sch, tb)"
  shows "resolve s' t = Some (sch, tb\<lparr>rows := rows tb @ [map (cell_of cols vals) (columns tb)]\<rparr>)"
    and "set cols \<subseteq> set (columns tb)"
  using insert_values_Inr[OF assms(1)] assms(2) by (auto simp: resolve_update)

lemma insert_rows_resolve:
  "insert_rows s t cols rs = (Inr (), s') \<Longrightarrow> resolve s t = Some (sch, tb) \<Longrightarrow>
   resolve s' t = Some (sch, tb\<lparr>rows := rows tb @ map (\<lambda>v. map (cell_of cols v) (columns tb)) rs\<rparr>)"
proof (induction rs arbitrary: s tb)
  case Nil
  then show ?case by simp
next
  case (Cons r rs)
  from Cons.prems(1) obtain s1 where s1: "insert_values s t cols r = Inr s1"
    and rest: "insert_rows s1 t cols rs = (Inr (), s')"
    by (auto split: sum.splits)
  from insert_values_resolve(1)[OF s1 Cons.prems(2)]
  have "resolve s1 t = Some (sch, tb\<lparr>rows := rows tb @ [map (cell_of cols r) (columns tb)]\<rparr>)" .
  from Cons.IH[OF rest this] show ?case by simp
qed

lemma insert_rows_nonempty:
  assumes "insert_rows s t cols rs = (Inr (), s')" and "rs \<noteq> []"
  shows "\<exists>sch tb. resolve s t = Some (sch, tb) \<and> set cols \<subseteq> set (columns tb)"
proof -
  from assms(2) obtain r rs' where "rs = r # rs'" by (cases rs) auto
  with assms(1) obtain s1 where "insert_values s t cols r = Inr s1"
    by (auto split: sum.splits)
  from insert_values_Inr[OF this] show ?thesis by blast
qed


lemma insert_rows_prefix:
  "insert_rows s t cols rs = (res, s') \<Longrightarrow>
   \<exists>k\<le>length rs. insert_rows s t cols (take k rs) = (Inr (), s') \<and> (res = Inr () \<longrightarrow> k = length rs)"
proof (induction rs arbitrary: s)
  case Nil
  then show ?case by simp
next
  case (Cons r rs)
  show ?case
  proof (cases "insert_values s t cols r")
    case (Inl e)
    with Cons.prems have "res = Inl e" "s' = s" by auto
    then show ?thesis by (intro exI[of _ 0]) simp
  next
    case (Inr s1)
    with Cons.prems have "insert_rows s1 t cols rs = (res, s')" by simp
    from Cons.IH[OF this] obtain k where k: "k \<le> length rs"
      "insert_rows s1 t cols (take k rs) = (Inr (), s')" "res = Inr () \<longrightarrow> k = length rs" by blast
    with Inr show ?thesis by (intro exI[of _ "Suc k"]) simp
  qed
qed

lemma load_Inr:
  assumes "load_incremental_data w t m = (Inr (), w')"
  shows "\<exists>rs sf. extracted_rows w t m = Inr rs
           \<and> insert_rows (snowflake w) t (discovered_columns w t) rs = (Inr (), sf)
           \<and> w' = w\<lparr>snowflake := sf\<rparr>"
  using assms by (auto simp: load_incremental_data_def split: sum.splits prod.splits)

lemma insert_rows_table_rows:
  assumes "insert_rows s t cols rs = (Inr (), s')"
  shows "table_rows s' t = table_rows s t @ map (\<lambda>v. map (cell_of cols v) (table_columns s t)) rs"
proof (cases "rs = []")
  case True
  with assms show ?thesis by simp
next
  case False
  from insert_rows_nonempty[OF assms False] obtain sch tb where r: "resolve s t = Some (sch, tb)"
    by blast
  from insert_rows_resolve[OF assms r] r show ?thesis
    by (simp add: table_rows_def table_columns_def)
qed

lemma example_load:
  "load_incremental_data example_world ''estados'' 3 =
     (Inr (), example_world\<lparr>snowflake := sf_example_loaded\<rparr>)"
  by (simp add: load_incremental_data_def example_extracted example_discovered)
     (simp add: example_world_def sf_example_def sf_example_loaded_def insert_values_def
        resolve_def dst_estados_def cell_of_def)

lemma example_pipeline:
  "pipeline example_world ''estados'' = (Inr (), example_world\<lparr>snowflake := sf_example_loaded\<rparr>)"
  by (simp add: pipeline_def example_get_max example_load)

text \<open>
  Claim C9: a load that completes has executed one INSERT for each extracted row, in the
  order of the batch: the destination table is the table of before followed by one new
  row per extracted row, in that order, so it has grown by the size of the batch.
\<close>

theorem one_insert_per_extracted_row:
  assumes "extracted_rows w table_name max_id = Inr rs"
    and "load_incremental_data w table_name max_id = (Inr (), w')"
  shows "table_rows (snowflake w') table_name =
           table_rows (snowflake w) table_name
             @ map (\<lambda>v. map (cell_of (discovered_columns w table_name) v)
                         (table_columns (snowflake w) table_name)) rs
         \<and> length (table_rows (snowflake w') table_name) =
             length (table_rows (snowflake w) table_name) + length rs"
proof -
  from load_Inr[OF assms(2)] assms(1) obtain sf where
    ins: "insert_rows (snowflake w) table_name (discovered_columns w table_name) rs = (Inr (), sf)"
    and w': "w' = w\<lparr>snowflake := sf\<rparr>" by auto
  from insert_rows_table_rows[OF ins] w' show ?thesis by simp
qed

theorem one_insert_per_extracted_row_witness:
  "extracted_rows example_world ''estados'' 3 = Inr [[Some 4, Some 40], [Some 5, None]]
   \<and> load_incremental_data example_world ''estados'' 3 =
       (Inr (), example_world\<lparr>snowflake := sf_example_loaded\<rparr>)
   \<and> table_rows (snowflake (example_world\<lparr>snowflake := sf_example_loaded\<rparr>)) ''estados'' =
       table_rows (snowflake example_world) ''estados''
         @ map (\<lambda>v. map (cell_of (discovered_columns example_world ''estados'') v)
                     (table_columns (snowflake example_world) ''estados''))
             [[Some 4, Some 40], [Some 5, None]]
   \<and> length (table_rows (snowflake (example_world\<lparr>snowflake := sf_example_loaded\<rparr>)) ''estados'') =
       length (table_rows (snowflake example_world) ''estados'')
         + length [[Some 4, Some 40], [Some 5, None :: int option]]"
  using example_extracted example_load
    one_insert_per_extracted_row[OF example_extracted example_load]
  by blast

subsection \<open>Column fidelity\<close>

text \<open>
  Claim C3: the extraction statement and every insertion statement of one load are given
  the same list, the discovered columns. So after a load that completes, each new row of
  the destination holds, under every discovered column name, the cell the source row it
  was extracted from holds under that name.
\<close>

theorem values_land_in_matching_columns:
  assumes l: "load_incremental_data w table_name max_id = (Inr (), w')"
    and src: "resolve (postgres w) table_name = Some (sch, tb)"
  shows "\<exists>new. table_rows (snowflake w') table_name = table_rows (snowflake w) table_name @ new
          \<and> length new =
              length (filter (\<lambda>r. \<exists>i. cell_of (columns tb) r (primary_key table_name) = Some i \<and> max_id < i) (rows tb))
          \<and> (\<forall>j<length new. \<forall>c\<in>set (discovered_columns w table_name).
                cell_of (table_columns (snowflake w) table_name) (new ! j) c =
                cell_of (columns tb)
                  (filter (\<lambda>r. \<exists>i. cell_of (columns tb) r (primary_key table_name) = Some i \<and> max_id < i) (rows tb) ! j) c)"
proof -
  let ?cols = "discovered_columns w table_name"
  let ?dcols = "table_columns (snowflake w) table_name"
  let ?sel = "filter (\<lambda>r. \<exists>i. cell_of (columns tb) r (primary_key table_name) = Some i \<and> max_id < i) (rows tb)"
  from load_Inr[OF l] obtain rs sf where ex: "extracted_rows w table_name max_id = Inr rs"
    and ins: "insert_rows (snowflake w) table_name ?cols rs = (Inr (), sf)"
    and w': "w' = w\<lparr>snowflake := sf\<rparr>" by blast
  from ex obtain sch' tb' where r: "resolve (postgres w) table_name = Some (sch', tb')"
    and "set ?cols \<subseteq> set (columns tb')"
    and "primary_key table_name \<in> set (columns tb')"
    and rs': "rs = map (\<lambda>r. map (cell_of (columns tb') r) ?cols)
                (filter (\<lambda>r. \<exists>i. cell_of (columns tb') r (primary_key table_name) = Some i \<and> max_id < i)
                   (rows tb'))"
    by (rule extracted_rows_Inr)
  from r src have "tb' = tb" by simp
  with rs' have rs: "rs = map (\<lambda>r. map (cell_of (columns tb) r) ?cols) ?sel" by simp
  let ?new = "map (\<lambda>v. map (cell_of ?cols v) ?dcols) rs"
  from insert_rows_table_rows[OF ins] w'
  have a: "table_rows (snowflake w') table_name = table_rows (snowflake w) table_name @ ?new"
    by simp
  have b: "length ?new = length ?sel" using rs by simp
  have c: "\<forall>j<length ?new. \<forall>c\<in>set ?cols.
             cell_of ?dcols (?new ! j) c = cell_of (columns tb) (?sel ! j) c"
  proof (intro allI impI ballI)
    fix j c assume j: "j < length ?new" and c: "c \<in> set ?cols"
    from j have jr: "j < length rs" by simp
    then have ne: "rs \<noteq> []" by auto
    from insert_rows_nonempty[OF ins ne] obtain dsch dtb where
      d: "resolve (snowflake w) table_name = Some (dsch, dtb)" and sub: "set ?cols \<subseteq> set (columns dtb)"
      by blast
    from d have dc: "?dcols = columns dtb" by (simp add: table_columns_def)
    from c sub have cd: "c \<in> set ?dcols" using dc by auto
    from jr rs have rj: "rs ! j = map (cell_of (columns tb) (?sel ! j)) ?cols" by simp
    have "cell_of ?dcols (?new ! j) c = cell_of ?cols (rs ! j) c"
      using jr cd by (simp add: cell_of_map)
    also have "\<dots> = cell_of (columns tb) (?sel ! j) c"
      using c by (simp only: rj cell_of_map)
    finally show "cell_of ?dcols (?new ! j) c = cell_of (columns tb) (?sel ! j) c" .
  qed
  from a b c show ?thesis by blast
qed

theorem values_land_in_matching_columns_witness:
  "load_incremental_data example_world ''estados'' 3 =
     (Inr (), example_world\<lparr>snowflake := sf_example_loaded\<rparr>)
   \<and> resolve (postgres example_world) ''estados'' = Some (''public'', src_estados)
   \<and> (\<exists>new. table_rows (snowflake (example_world\<lparr>snowflake := sf_example_loaded\<rparr>)) ''estados'' =
               table_rows (snowflake example_world) ''estados'' @ new
          \<and> length new =
              length (filter (\<lambda>r. \<exists>i. cell_of (columns src_estados) r (primary_key ''estados'') = Some i \<and> 3 < i)
                        (rows src_estados))
          \<and> (\<forall>j<length new. \<forall>c\<in>set (discovered_columns example_world ''estados'').
                cell_of (table_columns (snowflake example_world) ''estados'') (new ! j) c =
                cell_of (columns src_estados)
                  (filter (\<lambda>r. \<exists>i. cell_of (columns src_estados) r (primary_key ''estados'') = Some i \<and> 3 < i)
                     (rows src_estados) ! j) c))"
proof -
  have h: "resolve (postgres example_world) ''estados'' = Some (''public'', src_estados)"
    by (simp add: resolve_def example_world_def pg_example_def)
  from values_land_in_matching_columns[OF example_load h] example_load h show ?thesis by blast
qed

subsection \<open>The watermark across runs\<close>

lemma select_max_after_inserts:
  assumes "resolve s t = Some (sch, tb)" and "k \<in> set (columns tb)"
    and "insert_rows s t cols vs = (Inr (), s')"
  shows "select_max s' k t =
           Inr (sql_max (map (\<lambda>r. cell_of (columns tb) r k) (rows tb) @ map (\<lambda>v. cell_of cols v k) vs))"
proof -
  have "map ((\<lambda>r. cell_of (columns tb) r k) \<circ> (\<lambda>v. map (cell_of cols v) (columns tb))) vs
          = map (\<lambda>v. cell_of cols v k) vs"
    using assms(2) by (simp add: cell_of_map)
  moreover from insert_rows_resolve[OF assms(3) assms(1)] assms(2)
  have "select_max s' k t =
          Inr (sql_max (map (\<lambda>r. cell_of (columns tb) r k) (rows tb)
            @ map ((\<lambda>r. cell_of (columns tb) r k) \<circ> (\<lambda>v. map (cell_of cols v) (columns tb))) vs))"
    by (simp add: select_max_def)
  ultimately show ?thesis by (simp only:)
qed

lemma watermark_after_inserts:
  assumes get: "fst (get_max_primary_key w t) = Inr m"
    and ins: "insert_rows (snowflake w) t cols vs = (Inr (), sf)"
    and keys: "\<forall>v\<in>set vs. \<forall>p. cell_of cols v (primary_key t) = Some p \<longrightarrow> m < p"
  shows "\<exists>m'. fst (get_max_primary_key (w\<lparr>snowflake := sf\<rparr>) t) = Inr m' \<and> m \<le> m'
           \<and> (\<forall>v\<in>set vs. \<forall>p. cell_of cols v (primary_key t) = Some p \<longrightarrow> p \<le> m')"
proof -
  let ?k = "primary_key t"
  from get obtain sch tb where r: "resolve (snowflake w) t = Some (sch, tb)"
    and k: "?k \<in> set (columns tb)"
    and m: "m = (case sql_max (map (\<lambda>r. cell_of (columns tb) r ?k) (rows tb)) of
                Some i \<Rightarrow> i | None \<Rightarrow> 0)"
    by (rule get_max_Inr)
  let ?xs = "map (\<lambda>r. cell_of (columns tb) r ?k) (rows tb)"
  let ?ys = "map (\<lambda>v. cell_of cols v ?k) vs"
  let ?m' = "case sql_max (?xs @ ?ys) of Some i \<Rightarrow> i | None \<Rightarrow> 0"
  from select_max_after_inserts[OF r k ins]
  have g: "fst (get_max_primary_key (w\<lparr>snowflake := sf\<rparr>) t) = Inr ?m'"
    by (simp add: get_max_primary_key_def)
  have above: "\<forall>p. Some p \<in> set ?ys \<longrightarrow> (case sql_max ?xs of Some i \<Rightarrow> i | None \<Rightarrow> 0) < p"
    using keys m by auto
  from sql_max_append_above[OF above] m
  have le: "m \<le> ?m'" and ub: "\<forall>p. Some p \<in> set (?xs @ ?ys) \<longrightarrow> p \<le> ?m'" by simp_all
  have "\<forall>v\<in>set vs. \<forall>p. cell_of cols v ?k = Some p \<longrightarrow> p \<le> ?m'"
  proof (intro ballI allI impI)
    fix v p assume "v \<in> set vs" "cell_of cols v ?k = Some p"
    then have "Some p \<in> set (?xs @ ?ys)" by force
    with ub show "p \<le> ?m'" by blast
  qed
  with g le show ?thesis by blast
qed

lemma pipeline_watermark_step:
  assumes "fst (get_max_primary_key w t) = Inr m"
  shows "\<exists>m'. fst (get_max_primary_key (snd (pipeline w t)) t) = Inr m' \<and> m \<le> m'"
proof -
  from assms have g: "get_max_primary_key w t = (Inr m, w)"
    by (auto simp: get_max_primary_key_def split: sum.splits)
  then have p: "pipeline w t = load_incremental_data w t m" by (simp add: pipeline_def)
  show ?thesis
  proof (cases "extracted_rows w t m")
    case (Inl e)
    with p have "snd (pipeline w t) = w" by (simp add: load_incremental_data_def)
    with assms show ?thesis by auto
  next
    case (Inr rs)
    obtain res sf where i: "insert_rows (snowflake w) t (discovered_columns w t) rs = (res, sf)"
      by (cases "insert_rows (snowflake w) t (discovered_columns w t) rs")
    with p Inr have w': "snd (pipeline w t) = w\<lparr>snowflake := sf\<rparr>"
      by (simp add: load_incremental_data_def)
    from insert_rows_prefix[OF i] obtain k where
      k: "insert_rows (snowflake w) t (discovered_columns w t) (take k rs) = (Inr (), sf)" by blast
    have "\<forall>v\<in>set (take k rs). \<forall>p.
            cell_of (discovered_columns w t) v (primary_key t) = Some p \<longrightarrow> m < p"
      using extracted_row_key[OF Inr] by (blast dest: in_set_takeD)
    from watermark_after_inserts[OF assms k this] w' show ?thesis by auto
  qed
qed

text \<open>
  Claim C5: once a watermark has been read, the watermark read after any number of further
  runs of the pipeline, whatever the source holds at each of them and whether they
  complete or fail, is at least as large: the pipeline only appends rows to the
  destination, and every row it appends has a key above the watermark of its run.
\<close>

theorem watermark_never_decreases:
  "fst (get_max_primary_key w table_name) = Inr m \<Longrightarrow>
   \<exists>m'. fst (get_max_primary_key (scheduled_runs w table_name srcs) table_name) = Inr m' \<and> m \<le> m'"
proof (induction srcs arbitrary: w m)
  case Nil
  then show ?case by simp
next
  case (Cons src srcs)
  let ?w1 = "snd (pipeline (w\<lparr>postgres := src\<rparr>) table_name)"
  from Cons.prems have "fst (get_max_primary_key (w\<lparr>postgres := src\<rparr>) table_name) = Inr m"
    by (simp add: get_max_depends_on_snowflake)
  from pipeline_watermark_step[OF this] obtain m1 where
    m1: "fst (get_max_primary_key ?w1 table_name) = Inr m1" "m \<le> m1"
    by blast
  from Cons.IH[OF m1(1)] obtain m' where
    "fst (get_max_primary_key (scheduled_runs ?w1 table_name srcs) table_name) = Inr m'"
    "m1 \<le> m'" by blast
  with m1(2) show ?case by auto
qed

theorem watermark_never_decreases_witness:
  "fst (get_max_primary_key example_world ''estados'') = Inr 3
   \<and> (\<exists>m'. fst (get_max_primary_key
                 (scheduled_runs example_world ''estados'' [pg_example]) ''estados'') = Inr m'
            \<and> 3 \<le> m')
   \<and> fst (get_max_primary_key
           (scheduled_runs example_world ''estados'' [pg_example]) ''estados'') = Inr 5"
proof -
  have h: "fst (get_max_primary_key example_world ''estados'') = Inr 3"
    by (simp add: example_get_max)
  have e: "example_world\<lparr>postgres := pg_example\<rparr> = example_world"
    by (simp add: example_world_def)
  have "fst (get_max_primary_key
           (scheduled_runs example_world ''estados'' [pg_example]) ''estados'') = Inr 5"
    by (simp add: e example_pipeline example_get_max_loaded)
  with h watermark_never_decreases[OF h, of "[pg_example]"] show ?thesis by blast
qed

subsection \<open>A load that fails part of the way\<close>









subsection \<open>The second run\<close>












end
